theory Spec2Isabelle
  imports Main "HOL-Library.Word" "HOL-Library.Sublist" "HOL-Library.Monad_Syntax"
begin

section \<open>ECFS shared-library heuristics (src/dlopen.c)\<close>

text \<open>
  The file \<^verbatim>\<open>dlopen.c\<close> marks every shared library mapped into a dumped process as
  explained, \<^verbatim>\<open>dlopen\<close>'d or injected. This theory embeds its five functions
  (\<^verbatim>\<open>build_rodata_strings\<close>, \<^verbatim>\<open>resolve_so_deps\<close>, \<^verbatim>\<open>dlopen_symbol_found\<close>,
  \<^verbatim>\<open>lookup_so_path\<close>, \<^verbatim>\<open>mark_dlopen_libs\<close>) and proves the properties the
  specification states about them.

  Conventions.
  \<^item> A C string is the \<open>string\<close> of its bytes before the terminating NUL; a byte is a
    \<open>char\<close>. The mapped executable and the \<^verbatim>\<open>.rodata\<close> buffer are byte lists, which may
    contain NUL.
  \<^item> What the code takes from outside (the dependency iterator, \<^verbatim>\<open>readlink\<close>, the
    contents of the executable file, \<^verbatim>\<open>realloc\<close>) is a parameter of the model.
  \<^item> A C function either returns, or ends the process (\<^verbatim>\<open>exit(-1)\<close>), or reads or
    writes outside an object, which C leaves undefined: the three cases of \<open>outcome\<close>.
  \<^item> Modelled from the spec: \<^verbatim>\<open>heapAlloc\<close> and \<^verbatim>\<open>xstrdup\<close> (of \<^verbatim>\<open>util.c\<close>, which is not
    among the sources) return the memory they are asked for; the specification treats a
    failed allocation as an unrecoverable fault of the environment.
\<close>

subsection \<open>Outcomes\<close>

datatype 'a outcome = Returned 'a | Exited | Fault

fun bind_outcome :: "'a outcome \<Rightarrow> ('a \<Rightarrow> 'b outcome) \<Rightarrow> 'b outcome" where
  "bind_outcome (Returned x) f = f x"
| "bind_outcome Exited f = Exited"
| "bind_outcome Fault f = Fault"

text \<open>A read that leaves the object it reads from is \<open>None\<close>; as an outcome it is \<open>Fault\<close>.\<close>

fun of_read :: "'a option \<Rightarrow> 'a outcome" where
  "of_read None = Fault"
| "of_read (Some x) = Returned x"

subsection \<open>Data model\<close>

text \<open>\<^verbatim>\<open>PATH_MAX\<close> of \<^verbatim>\<open><limits.h>\<close> on Linux.\<close>

definition PATH_MAX :: nat where
  "PATH_MAX = 4096"

text \<open>\<^verbatim>\<open>struct elf_shared_object\<close>: what the iterator hands out for one dependency.\<close>

record elf_shared_object =
  entry_path :: string
  entry_basename :: string

text \<open>\<^verbatim>\<open>struct elf_shared_object_node\<close>: one element of \<^verbatim>\<open>obj->list.needed\<close>.\<close>

record elf_shared_object_node =
  node_path :: string
  node_basename :: string

text \<open>
  \<^verbatim>\<open>elf_iterator_res_t\<close>, with the entry that \<^verbatim>\<open>elf_shared_object_iterator_next\<close> fills in
  when it reports one.
\<close>

datatype elf_iterator_res =
  ELF_ITER_OK elf_shared_object
| ELF_ITER_DONE
| ELF_ITER_ERROR
| ELF_ITER_NOTFOUND

text \<open>
  The fields of \<^verbatim>\<open>elfdesc_t\<close> that the file uses: the path of the original executable and
  the list of resolved dependencies, head first.
\<close>

record elfdesc =
  exe_path :: string
  needed :: "elf_shared_object_node list"

text \<open>
  One element of \<^verbatim>\<open>lm_files->libs\<close>. The structure is declared in \<^verbatim>\<open>ecfs.h\<close>; the
  fields the file does not touch are the extension part of the record.
\<close>

record lib_mapping =
  lib_path :: string
  injected :: bool
  dlopen :: bool

text \<open>\<^verbatim>\<open>notedesc->lm_files\<close>: the entries \<^verbatim>\<open>libs[0]\<close> .. \<^verbatim>\<open>libs[libcount - 1]\<close>.\<close>

record 'a notedesc =
  lm_files :: "'a lib_mapping_scheme list"

text \<open>
  The world the run reads.
  \<^item> \<open>so_iterator\<close>: \<open>None\<close> when \<^verbatim>\<open>elf_shared_object_iterator_init\<close> returns false;
    otherwise the results of the successive calls of
    \<^verbatim>\<open>elf_shared_object_iterator_next\<close>, which answers \<^verbatim>\<open>ELF_ITER_DONE\<close> once they are
    used up.
  \<^item> \<open>readlink_fs p\<close>: the contents of the symbolic link \<open>p\<close>, \<open>None\<close> when
    \<^verbatim>\<open>readlink(2)\<close> fails (\<open>p\<close> is no symbolic link, or cannot be read).
  \<^item> \<open>exe_file p\<close>: the bytes of the file \<open>p\<close>, \<open>None\<close> when it cannot be opened,
    stat'ed or mapped.
\<close>

record env =
  so_iterator :: "elf_iterator_res list option"
  readlink_fs :: "string \<Rightarrow> string option"
  exe_file :: "string \<Rightarrow> string option"

subsection \<open>C library functions\<close>

text \<open>\<^verbatim>\<open>strrchr(s, c)\<close>: the index of the last \<open>c\<close> in \<open>s\<close>, \<open>None\<close> for \<^verbatim>\<open>NULL\<close>.\<close>

fun strrchr :: "string \<Rightarrow> char \<Rightarrow> nat option" where
  "strrchr [] c = None"
| "strrchr (x # xs) c =
     (case strrchr xs c of
        Some k \<Rightarrow> Some (Suc k)
      | None \<Rightarrow> (if x = c then Some 0 else None))"

text \<open>\<^verbatim>\<open>strstr(haystack, needle)\<close>: the index of the first occurrence, \<open>None\<close> for \<^verbatim>\<open>NULL\<close>.\<close>

fun strstr :: "string \<Rightarrow> string \<Rightarrow> nat option" where
  "strstr [] needle = (if needle = [] then Some 0 else None)"
| "strstr (h # hs) needle =
     (if prefix needle (h # hs) then Some 0 else map_option Suc (strstr hs needle))"

text \<open>
  \<^verbatim>\<open>r = readlink(path, buf, PATH_MAX)\<close> on a zeroed buffer: the number of bytes placed in
  \<^verbatim>\<open>buf\<close> (at most \<^verbatim>\<open>PATH_MAX\<close>, the rest is cut off) or \<open>-1\<close>, and the bytes.
\<close>

definition readlink :: "(string \<Rightarrow> string option) \<Rightarrow> string \<Rightarrow> int \<times> string" where
  "readlink fs p =
     (case fs p of
        None \<Rightarrow> (- 1, [])
      | Some t \<Rightarrow> (int (length (take PATH_MAX t)), take PATH_MAX t))"

subsection \<open>\<^verbatim>\<open>resolve_so_deps\<close>\<close>

text \<open>
  The body of the loop for an entry the iterator has found: the path of the new node.
  \<open>Returned None\<close> is the \<^verbatim>\<open>return false\<close> after \<^verbatim>\<open>strrchr\<close> found no \<^verbatim>\<open>'/'\<close>.
  \<^verbatim>\<open>strncpy\<close> writes \<open>k + 1\<close> bytes to \<^verbatim>\<open>dirpath[PATH_MAX + 1]\<close>, which was zeroed;
  with more than \<^verbatim>\<open>PATH_MAX\<close> bytes, no NUL is left inside the array for \<^verbatim>\<open>strlen\<close>.
\<close>

definition so_path :: "(string \<Rightarrow> string option) \<Rightarrow> elf_shared_object \<Rightarrow> string option outcome" where
  "so_path fs entry =
     (let (r, buf) = readlink fs (entry_path entry) in
      if r > 0 then
        (case strrchr (entry_path entry) CHR ''/'' of
           None \<Rightarrow> Returned None
         | Some k \<Rightarrow>
             if k + 1 > PATH_MAX then Fault
             else Returned (Some (take (k + 1) (entry_path entry) @ buf)))
      else Returned (Some (entry_path entry)))"

text \<open>
  The \<^verbatim>\<open>for (;;)\<close> loop over the iterator, with the list built so far.
  The boolean is the value \<^verbatim>\<open>resolve_so_deps\<close> returns; the list is \<^verbatim>\<open>obj->list.needed\<close>
  at that moment.
\<close>

fun resolve_loop ::
  "(string \<Rightarrow> string option) \<Rightarrow> elf_iterator_res list \<Rightarrow> elf_shared_object_node list
     \<Rightarrow> (bool \<times> elf_shared_object_node list) outcome" where
  "resolve_loop fs [] acc = Returned (True, acc)"
| "resolve_loop fs (ELF_ITER_DONE # rest) acc = Returned (True, acc)"
| "resolve_loop fs (ELF_ITER_ERROR # rest) acc = Returned (False, acc)"
| "resolve_loop fs (ELF_ITER_NOTFOUND # rest) acc = resolve_loop fs rest acc"
| "resolve_loop fs (ELF_ITER_OK entry # rest) acc =
     bind_outcome (so_path fs entry) (\<lambda>p.
       case p of
         None \<Rightarrow> Returned (False, acc)
       | Some path \<Rightarrow>
           resolve_loop fs rest
             (\<lparr>node_path = path, node_basename = entry_basename entry\<rparr> # acc))"

definition resolve_so_deps :: "env \<Rightarrow> elfdesc \<Rightarrow> (bool \<times> elfdesc) outcome" where
  "resolve_so_deps e obj =
     (case so_iterator e of
        None \<Rightarrow> Returned (False, obj)
      | Some results \<Rightarrow>
          bind_outcome (resolve_loop (readlink_fs e) results [])
            (\<lambda>(ok, deps). Returned (ok, obj\<lparr>needed := deps\<rparr>)))"

subsection \<open>Reading the mapped executable\<close>

text \<open>
  \<^verbatim>\<open>mem\<close> is the file as \<^verbatim>\<open>mmap\<close> shows it: \<^verbatim>\<open>st.st_size\<close> bytes. The structures are
  those of \<^verbatim>\<open><elf.h>\<close> for a 64-bit little-endian build, where \<^verbatim>\<open>ElfW(T)\<close> is
  \<^verbatim>\<open>Elf64_T\<close>: \<^verbatim>\<open>Elf64_Ehdr\<close> and \<^verbatim>\<open>Elf64_Shdr\<close> have 64 bytes, \<^verbatim>\<open>Elf64_Sym\<close> has 24.
  The code checks no offset, so every read says itself whether it stays inside the file.
\<close>

fun le_nat :: "string \<Rightarrow> nat" where
  "le_nat [] = 0"
| "le_nat (b # bs) = of_char b + 256 * le_nat bs"

definition read_le :: "string \<Rightarrow> nat \<Rightarrow> nat \<Rightarrow> nat option" where
  "read_le mem off n =
     (if off + n \<le> length mem then Some (le_nat (take n (drop off mem))) else None)"

text \<open>
  The C string that starts at \<^verbatim>\<open>&mem[off]\<close>, if a NUL ends it inside the file. \<^verbatim>\<open>strcmp\<close>
  is handed such a pointer; without a NUL inside the file it is handed no string at all,
  and the call is undefined.
\<close>

definition c_string :: "string \<Rightarrow> nat \<Rightarrow> string option" where
  "c_string mem off =
     (if CHR 0x00 \<in> set (drop off mem)
      then Some (takeWhile (\<lambda>c. c \<noteq> CHR 0x00) (drop off mem))
      else None)"

definition e_phoff :: "string \<Rightarrow> nat option" where
  "e_phoff mem = read_le mem 32 8"

definition e_shoff :: "string \<Rightarrow> nat option" where
  "e_shoff mem = read_le mem 40 8"

definition e_shnum :: "string \<Rightarrow> nat option" where
  "e_shnum mem = read_le mem 60 2"

definition e_shstrndx :: "string \<Rightarrow> nat option" where
  "e_shstrndx mem = read_le mem 62 2"

text \<open>The fields of \<^verbatim>\<open>shdr[i]\<close>, for \<^verbatim>\<open>shdr = &mem[shoff]\<close>.\<close>

definition sh_name :: "string \<Rightarrow> nat \<Rightarrow> nat \<Rightarrow> nat option" where
  "sh_name mem shoff i = read_le mem (shoff + i * 64) 4"

definition sh_offset :: "string \<Rightarrow> nat \<Rightarrow> nat \<Rightarrow> nat option" where
  "sh_offset mem shoff i = read_le mem (shoff + i * 64 + 24) 8"

definition sh_size :: "string \<Rightarrow> nat \<Rightarrow> nat \<Rightarrow> nat option" where
  "sh_size mem shoff i = read_le mem (shoff + i * 64 + 32) 8"

text \<open>\<^verbatim>\<open>symtab[i].st_name\<close>, for \<^verbatim>\<open>symtab = &mem[tab]\<close>.\<close>

definition st_name :: "string \<Rightarrow> nat \<Rightarrow> nat \<Rightarrow> nat option" where
  "st_name mem tab i = read_le mem (tab + i * 24) 4"

text \<open>\<^verbatim>\<open>&shstrtab[shdr[i].sh_name]\<close> as a string.\<close>

definition section_name :: "string \<Rightarrow> nat \<Rightarrow> nat \<Rightarrow> nat \<Rightarrow> string option" where
  "section_name mem shoff shstrtab i =
     do { n \<leftarrow> sh_name mem shoff i; c_string mem (shstrtab + n) }"

text \<open>\<^verbatim>\<open>&dynstr[symtab[i].st_name]\<close> as a string; \<open>None\<close> also when \<^verbatim>\<open>dynstr\<close> was never set.\<close>

definition symbol_name :: "string \<Rightarrow> nat option \<Rightarrow> nat \<Rightarrow> nat \<Rightarrow> string option" where
  "symbol_name mem dstr tab i =
     do { n \<leftarrow> st_name mem tab i; d \<leftarrow> dstr; c_string mem (d + n) }"

text \<open>
  The assignment of the \<^verbatim>\<open>size_t\<close> quotient to \<^verbatim>\<open>int symcount\<close> keeps the low 32 bits,
  read as a signed number.
\<close>

definition int_of_size :: "nat \<Rightarrow> int" where
  "int_of_size n = sint (word_of_nat n :: 32 word)"

subsection \<open>\<^verbatim>\<open>dlopen_symbol_found\<close>\<close>

text \<open>
  The locals the section loop sets: \<^verbatim>\<open>dynstr\<close> (\<open>None\<close> while uninitialised), \<^verbatim>\<open>symtab\<close>
  (\<open>None\<close> for \<^verbatim>\<open>NULL\<close>) and \<^verbatim>\<open>symcount\<close>.
\<close>

record sections =
  dynstr :: "nat option"
  symtab :: "nat option"
  symcount :: int

function section_loop ::
  "string \<Rightarrow> nat \<Rightarrow> nat \<Rightarrow> nat \<Rightarrow> nat \<Rightarrow> sections \<Rightarrow> sections option" where
  "section_loop mem shoff shstrtab shnum i st =
     (if i < shnum then
        do {
          name \<leftarrow> section_name mem shoff shstrtab i;
          if name = ''.dynstr'' then
            do {
              off \<leftarrow> sh_offset mem shoff i;
              section_loop mem shoff shstrtab shnum (Suc i) (st\<lparr>dynstr := Some off\<rparr>)
            }
          else if name = ''.dynsym'' then
            do {
              size \<leftarrow> sh_size mem shoff i;
              off \<leftarrow> sh_offset mem shoff i;
              section_loop mem shoff shstrtab shnum (Suc i)
                (st\<lparr>symcount := int_of_size (size div 24), symtab := Some off\<rparr>)
            }
          else section_loop mem shoff shstrtab shnum (Suc i) st
        }
      else Some st)"
  by pat_completeness auto
termination
  by (relation "measure (\<lambda>(mem, shoff, shstrtab, shnum, i, st). shnum - i)") auto

declare section_loop.simps [simp del]

function symbol_loop :: "string \<Rightarrow> nat option \<Rightarrow> nat \<Rightarrow> int \<Rightarrow> nat \<Rightarrow> bool option" where
  "symbol_loop mem dstr tab count i =
     (if int i < count then
        do {
          name \<leftarrow> symbol_name mem dstr tab i;
          if name = ''dlopen'' then Some True
          else symbol_loop mem dstr tab count (Suc i)
        }
      else Some False)"
  by pat_completeness auto
termination
  by (relation "measure (\<lambda>(mem, dstr, tab, count, i). nat count - i)") auto

declare symbol_loop.simps [simp del]

text \<open>The function from \<^verbatim>\<open>ehdr = (ElfW(Ehdr) *)mem\<close> on.\<close>

definition dlopen_symbol_scan :: "string \<Rightarrow> bool option" where
  "dlopen_symbol_scan mem =
     do {
       shoff \<leftarrow> e_shoff mem;
       phoff \<leftarrow> e_phoff mem;
       shstrndx \<leftarrow> e_shstrndx mem;
       shstrtab \<leftarrow> sh_offset mem shoff shstrndx;
       shnum \<leftarrow> e_shnum mem;
       st \<leftarrow> section_loop mem shoff shstrtab shnum 0
               \<lparr>dynstr = None, symtab = None, symcount = 0\<rparr>;
       case symtab st of
         None \<Rightarrow> Some False
       | Some tab \<Rightarrow> symbol_loop mem (dynstr st) tab (symcount st) 0
     }"

text \<open>
  Modelled from the spec: \<^verbatim>\<open>xopen\<close> and \<^verbatim>\<open>xfstat\<close> are functions of \<^verbatim>\<open>util.c\<close>, which is not
  among the sources; the specification lets an inaccessible file abort the run, and so
  they end the process, as the \<^verbatim>\<open>exit(-1)\<close> after a failed \<^verbatim>\<open>mmap\<close> does. With the file
  mapped, the function is the scan above.
\<close>

definition dlopen_symbol_found :: "env \<Rightarrow> elfdesc \<Rightarrow> bool outcome" where
  "dlopen_symbol_found e obj =
     (case exe_file e (exe_path obj) of
        None \<Rightarrow> Exited
      | Some mem \<Rightarrow> of_read (dlopen_symbol_scan mem))"

subsection \<open>\<^verbatim>\<open>lookup_so_path\<close> and \<^verbatim>\<open>mark_dlopen_libs\<close>\<close>

text \<open>\<^verbatim>\<open>LIST_FOREACH\<close> with \<^verbatim>\<open>strcmp\<close>.\<close>

fun list_foreach_path :: "elf_shared_object_node list \<Rightarrow> string \<Rightarrow> bool" where
  "list_foreach_path [] lookup_path = False"
| "list_foreach_path (current # rest) lookup_path =
     (if lookup_path = node_path current then True else list_foreach_path rest lookup_path)"

definition lookup_so_path :: "elfdesc \<Rightarrow> string \<Rightarrow> bool" where
  "lookup_so_path obj lookup_path = list_foreach_path (needed obj) lookup_path"

text \<open>The loop over \<^verbatim>\<open>lm_files->libs\<close>, from index \<open>i\<close> on.\<close>

function mark_loop ::
  "elfdesc \<Rightarrow> bool \<Rightarrow> 'a lib_mapping_scheme list \<Rightarrow> nat \<Rightarrow> 'a lib_mapping_scheme list" where
  "mark_loop obj dl libs i =
     (if i < length libs then
        (if lookup_so_path obj (lib_path (libs ! i)) = False then
           (if dl = False
            then mark_loop obj dl (libs[i := (libs ! i)\<lparr>injected := True\<rparr>]) (Suc i)
            else mark_loop obj dl (libs[i := (libs ! i)\<lparr>dlopen := True\<rparr>]) (Suc i))
         else mark_loop obj dl libs (Suc i))
      else libs)"
  by pat_completeness auto
termination
  by (relation "measure (\<lambda>(obj, dl, libs, i). length libs - i)") auto

declare mark_loop.simps [simp del]

text \<open>
  The result is the returned boolean with the two descriptors as the call leaves them.
\<close>

definition mark_dlopen_libs ::
  "env \<Rightarrow> 'a notedesc \<Rightarrow> elfdesc \<Rightarrow> (bool \<times> 'a notedesc \<times> elfdesc) outcome" where
  "mark_dlopen_libs e nd ed =
     bind_outcome (resolve_so_deps e ed) (\<lambda>(ok, obj).
       if ok = False then Returned (False, nd, obj)
       else
         bind_outcome (dlopen_symbol_found e obj) (\<lambda>dl.
           Returned (True, nd\<lparr>lm_files := mark_loop obj dl (lm_files nd) 0\<rparr>, obj)))"

subsection \<open>\<^verbatim>\<open>build_rodata_strings\<close>\<close>

definition MAX_STRINGS :: nat where
  "MAX_STRINGS = 1024"

text \<open>The size of the \<^verbatim>\<open>alloca\<close> block \<^verbatim>\<open>string\<close>.\<close>

definition STRING_SIZE :: nat where
  "STRING_SIZE = 8192 * 2"

definition INT_MAX :: int where
  "INT_MAX = 2147483647"

text \<open>
  The state of the scan: \<open>str\<close> holds \<^verbatim>\<open>string[0]\<close> .. \<^verbatim>\<open>string[j - 1]\<close>, so \<^verbatim>\<open>j\<close> is its
  length; \<open>stra\<close> holds the slots \<^verbatim>\<open>(*stra)[0]\<close> .. \<^verbatim>\<open>(*stra)[index - 1]\<close>, so \<^verbatim>\<open>index\<close> is
  its length; \<open>slots\<close> is the number of pointers the block \<^verbatim>\<open>*stra\<close> has room for.
\<close>

record rodata_scan =
  str :: string
  stra :: "string list"
  cursize :: nat
  slots :: nat

text \<open>
  One pass through the body of the loop, for the byte \<open>c\<close>. \<open>Inl r\<close> is \<^verbatim>\<open>return r\<close>,
  \<open>Inr s\<close> goes on to \<^verbatim>\<open>i++\<close>. A write past \<^verbatim>\<open>string\<close> or past the block \<^verbatim>\<open>*stra\<close> is a
  \<open>Fault\<close>. \<^verbatim>\<open>cursize\<close> is a \<^verbatim>\<open>size_t\<close> of 64 bits and a pointer has 8 bytes; \<open>ra n\<close> says
  whether \<^verbatim>\<open>realloc\<close> can give \<open>n\<close> bytes, and \<^verbatim>\<open>realloc(p, 0)\<close> answers \<^verbatim>\<open>NULL\<close>.
\<close>

definition rodata_step :: "(nat \<Rightarrow> bool) \<Rightarrow> char \<Rightarrow> rodata_scan \<Rightarrow> (int + rodata_scan) outcome" where
  "rodata_step ra c s =
     (if c \<noteq> CHR 0x00 then
        (if length (str s) < STRING_SIZE then Returned (Inr (s\<lparr>str := str s @ [c]\<rparr>))
         else Fault)
      else if \<not> length (str s) < STRING_SIZE then Fault
      else if strstr (str s) ''.so'' \<noteq> None \<and> \<not> length (stra s) < slots s then Fault
      else
        (let s1 = (if strstr (str s) ''.so'' \<noteq> None then s\<lparr>stra := stra s @ [str s]\<rparr> else s);
             s2 = s1\<lparr>str := []\<rparr>
         in if length (stra s2) = MAX_STRINGS - 1 then
              (let cs = (cursize s2 * 2) mod 2 ^ 64;
                   bytes = (8 * cs) mod 2 ^ 64
               in if bytes \<noteq> 0 \<and> ra bytes
                  then Returned (Inr (s2\<lparr>cursize := cs, slots := bytes div 8\<rparr>))
                  else Returned (Inl (- 1)))
            else Returned (Inr s2)))"

text \<open>
  The loop over the bytes from \<^verbatim>\<open>p[i]\<close> on. \<^verbatim>\<open>i\<close> is an \<^verbatim>\<open>int\<close>: \<^verbatim>\<open>i++\<close> at \<^verbatim>\<open>INT_MAX\<close>
  overflows. The result is the returned \<^verbatim>\<open>int\<close> and the strings \<^verbatim>\<open>*stra\<close> points to.
\<close>

fun rodata_loop ::
  "(nat \<Rightarrow> bool) \<Rightarrow> string \<Rightarrow> int \<Rightarrow> rodata_scan \<Rightarrow> (int \<times> string list) outcome" where
  "rodata_loop ra [] i s = Returned (int (length (stra s)), stra s)"
| "rodata_loop ra (c # p) i s =
     bind_outcome (rodata_step ra c s) (\<lambda>r.
       case r of
         Inl ret \<Rightarrow> Returned (ret, [])
       | Inr s' \<Rightarrow> if i = INT_MAX then Fault else rodata_loop ra p (i + 1) s')"

definition build_rodata_strings :: "(nat \<Rightarrow> bool) \<Rightarrow> string \<Rightarrow> (int \<times> string list) outcome" where
  "build_rodata_strings ra rodata =
     rodata_loop ra rodata 0
       \<lparr>str = [], stra = [], cursize = MAX_STRINGS, slots = MAX_STRINGS\<rparr>"

section \<open>The notions of the specification\<close>

subsection \<open>NUL-terminated runs\<close>

text \<open>
  The NUL-terminated runs of a buffer, in order: what lies before each NUL, from the byte
  after the NUL before it. Bytes after the last NUL belong to no run.
\<close>

function nul_runs :: "string \<Rightarrow> string list" where
  "nul_runs buf =
     (case dropWhile (\<lambda>c. c \<noteq> CHR 0x00) buf of
        [] \<Rightarrow> []
      | nul # rest \<Rightarrow> takeWhile (\<lambda>c. c \<noteq> CHR 0x00) buf # nul_runs rest)"
  by pat_completeness auto
termination
proof (relation "measure length")
  fix buf :: string and nul rest
  assume "dropWhile (\<lambda>c. c \<noteq> CHR 0x00) buf = nul # rest"
  then have "length (nul # rest) \<le> length buf"
    by (metis length_dropWhile_le)
  then show "(rest, buf) \<in> measure length" by simp
qed simp

declare nul_runs.simps [simp del]

text \<open>The runs that contain the substring \<^verbatim>\<open>.so\<close>, in scan order, duplicates kept.\<close>

definition candidate_strings :: "string \<Rightarrow> string list" where
  "candidate_strings buf = filter (sublist ''.so'') (nul_runs buf)"

text \<open>
  The length of the longest stretch without NUL, where \<open>n\<close> bytes without NUL precede the
  buffer.
\<close>

fun longest_run :: "nat \<Rightarrow> string \<Rightarrow> nat" where
  "longest_run n [] = n"
| "longest_run n (c # cs) =
     (if c = CHR 0x00 then max n (longest_run 0 cs) else longest_run (Suc n) cs)"

subsection \<open>The dynamic symbol table of an executable\<close>


text \<open>The last of the sections \<open>idx\<close> that has the given name.\<close>

definition last_named :: "string \<Rightarrow> nat \<Rightarrow> nat \<Rightarrow> nat list \<Rightarrow> string \<Rightarrow> nat option" where
  "last_named mem shoff shstrtab idx name =
     find (\<lambda>i. section_name mem shoff shstrtab i = Some name) (rev idx)"







section \<open>Concrete inputs\<close>

text \<open>
  Small inputs on which the functions are run: four executables built field by field, a
  snapshot with one declared and one undeclared library, a buffer of runs, and the worlds the runs happen in.
\<close>

text \<open>\<open>n\<close> bytes of \<open>v\<close>, least significant first.\<close>

fun le_bytes :: "nat \<Rightarrow> nat \<Rightarrow> string" where
  "le_bytes 0 v = []"
| "le_bytes (Suc n) v = char_of (v mod 256) # le_bytes n (v div 256)"

definition Elf64_Ehdr :: "nat \<Rightarrow> nat \<Rightarrow> nat \<Rightarrow> string" where
  "Elf64_Ehdr shoff shnum shstrndx =
     replicate 40 (CHR 0x00) @ le_bytes 8 shoff @ replicate 12 (CHR 0x00) @
     le_bytes 2 shnum @ le_bytes 2 shstrndx"

definition Elf64_Shdr :: "nat \<Rightarrow> nat \<Rightarrow> nat \<Rightarrow> string" where
  "Elf64_Shdr name off sz =
     le_bytes 4 name @ replicate 20 (CHR 0x00) @ le_bytes 8 off @ le_bytes 8 sz @
     replicate 24 (CHR 0x00)"

definition Elf64_Sym :: "nat \<Rightarrow> string" where
  "Elf64_Sym name = le_bytes 4 name @ replicate 20 (CHR 0x00)"

text \<open>
  An executable with the sections \<^verbatim>\<open>.dynsym\<close> (two symbols, the second named
  \<^verbatim>\<open>dlopen\<close>), \<^verbatim>\<open>.dynstr\<close> and \<^verbatim>\<open>.shstrtab\<close>.
\<close>

definition elf_with_dlopen :: string where
  "elf_with_dlopen =
     Elf64_Ehdr 64 4 3 @
     Elf64_Shdr 0 0 0 @ Elf64_Shdr 1 320 48 @ Elf64_Shdr 9 368 8 @ Elf64_Shdr 17 376 27 @
     Elf64_Sym 0 @ Elf64_Sym 1 @
     CHR 0x00 # ''dlopen'' @ [CHR 0x00] @
     CHR 0x00 # ''.dynsym'' @ CHR 0x00 # ''.dynstr'' @ CHR 0x00 # ''.shstrtab'' @ [CHR 0x00]"

text \<open>An executable whose only named section is \<^verbatim>\<open>.shstrtab\<close>.\<close>

definition elf_static :: string where
  "elf_static =
     Elf64_Ehdr 64 2 1 @
     Elf64_Shdr 0 0 0 @ Elf64_Shdr 1 192 11 @
     CHR 0x00 # ''.shstrtab'' @ [CHR 0x00]"

definition libfoo_entry :: elf_shared_object where
  "libfoo_entry = \<lparr>entry_path = ''/usr/lib/libfoo.so'', entry_basename = ''libfoo.so''\<rparr>"

definition libfoo_node :: elf_shared_object_node where
  "libfoo_node = \<lparr>node_path = ''/usr/lib/libfoo.so'', node_basename = ''libfoo.so''\<rparr>"

definition libfoo :: lib_mapping where
  "libfoo = \<lparr>lib_path = ''/usr/lib/libfoo.so'', injected = False, dlopen = False\<rparr>"

definition libevil :: lib_mapping where
  "libevil = \<lparr>lib_path = ''/tmp/libevil.so'', injected = False, dlopen = False\<rparr>"

definition snapshot :: "unit notedesc" where
  "snapshot = \<lparr>lm_files = [libfoo, libevil]\<rparr>"

definition app :: elfdesc where
  "app = \<lparr>exe_path = ''/usr/bin/app'', needed = []\<rparr>"

definition world_dlopen :: env where
  "world_dlopen =
     \<lparr>so_iterator = Some [ELF_ITER_OK libfoo_entry],
      readlink_fs = (\<lambda>p. None),
      exe_file = (\<lambda>p. Some elf_with_dlopen)\<rparr>"

definition world_static :: env where
  "world_static =
     \<lparr>so_iterator = Some [ELF_ITER_OK libfoo_entry],
      readlink_fs = (\<lambda>p. None),
      exe_file = (\<lambda>p. Some elf_static)\<rparr>"

definition world_init_fails :: env where
  "world_init_fails =
     \<lparr>so_iterator = None, readlink_fs = (\<lambda>p. None), exe_file = (\<lambda>p. Some elf_with_dlopen)\<rparr>"

definition world_step_error :: env where
  "world_step_error =
     \<lparr>so_iterator = Some [ELF_ITER_OK libfoo_entry, ELF_ITER_ERROR],
      readlink_fs = (\<lambda>p. None),
      exe_file = (\<lambda>p. Some elf_with_dlopen)\<rparr>"

definition libbar_entry :: elf_shared_object where
  "libbar_entry = \<lparr>entry_path = ''/usr/lib/libbar.so.1'', entry_basename = ''libbar.so.1''\<rparr>"

definition libbaz_entry :: elf_shared_object where
  "libbaz_entry = \<lparr>entry_path = ''libbaz.so'', entry_basename = ''libbaz.so''\<rparr>"

definition links :: "string \<Rightarrow> string option" where
  "links p =
     (if p = ''/usr/lib/libbar.so.1'' then Some ''libbar.so.1.2''
      else if p = ''libbaz.so'' then Some ''libbaz.so.1''
      else None)"

definition world_links :: env where
  "world_links =
     \<lparr>so_iterator = Some [ELF_ITER_OK libbar_entry, ELF_ITER_NOTFOUND, ELF_ITER_OK libfoo_entry],
      readlink_fs = links,
      exe_file = (\<lambda>p. Some elf_static)\<rparr>"

definition world_no_slash :: env where
  "world_no_slash =
     \<lparr>so_iterator = Some [ELF_ITER_OK libfoo_entry, ELF_ITER_OK libbaz_entry, ELF_ITER_OK libbar_entry],
      readlink_fs = links,
      exe_file = (\<lambda>p. Some elf_static)\<rparr>"

definition world_only_link :: env where
  "world_only_link =
     \<lparr>so_iterator = Some [ELF_ITER_OK libbaz_entry],
      readlink_fs = links,
      exe_file = (\<lambda>p. Some elf_static)\<rparr>"





text \<open>One run of \<^verbatim>\<open>.rodata\<close>: the string \<^verbatim>\<open>.so\<close> and its NUL.\<close>

definition so_run :: string where
  "so_run = ''.so'' @ [CHR 0x00]"

section \<open>Properties of the classifier\<close>

lemma list_foreach_path_iff:
  "list_foreach_path deps p \<longleftrightarrow> p \<in> node_path ` set deps"
  by (induction deps) auto

lemma lookup_so_path_iff:
  "lookup_so_path obj p \<longleftrightarrow> p \<in> node_path ` set (needed obj)"
  by (simp add: lookup_so_path_def list_foreach_path_iff)

lemma length_mark_loop [simp]:
  "length (mark_loop obj dl libs i) = length libs"
  by (induction obj dl libs i rule: mark_loop.induct) (subst mark_loop.simps, simp)

lemma nth_mark_loop:
  "j < length libs \<Longrightarrow>
   mark_loop obj dl libs i ! j =
     (if j < i \<or> lookup_so_path obj (lib_path (libs ! j)) then libs ! j
      else if dl then (libs ! j)\<lparr>dlopen := True\<rparr>
      else (libs ! j)\<lparr>injected := True\<rparr>)"
proof (induction obj dl libs i rule: mark_loop.induct)
  case (1 obj dl libs i)
  show ?case
  proof (cases "i < length libs")
    case False
    with "1.prems" show ?thesis by (subst mark_loop.simps) simp
  next
    case True
    note step = mark_loop.simps [of obj dl libs i]
    show ?thesis
    proof (cases "lookup_so_path obj (lib_path (libs ! i))")
      case found: True
      with True "1.IH"(3) "1.prems" show ?thesis
        by (subst step) (auto simp: less_Suc_eq)
    next
      case unexplained: False
      show ?thesis
      proof (cases dl)
        case True
        with \<open>i < length libs\<close> unexplained "1.IH"(2) "1.prems" show ?thesis
          by (subst step) (auto simp: less_Suc_eq nth_list_update)
      next
        case False
        with \<open>i < length libs\<close> unexplained "1.IH"(1) "1.prems" show ?thesis
          by (subst step) (auto simp: less_Suc_eq nth_list_update)
      qed
    qed
  qed
qed

lemma dlopen_symbol_found_needed [simp]:
  "dlopen_symbol_found e (obj\<lparr>needed := deps\<rparr>) = dlopen_symbol_found e obj"
  by (simp add: dlopen_symbol_found_def)

lemma resolve_so_deps_exe_path:
  "resolve_so_deps e ed = Returned (ok, ed') \<Longrightarrow> \<exists>deps. ed' = ed\<lparr>needed := deps\<rparr>"
  unfolding resolve_so_deps_def
  apply (cases "so_iterator e")
   apply simp
   apply (rule exI [of _ "needed ed"])
   apply simp
  apply simp
  apply (case_tac "resolve_loop (readlink_fs e) a []")
    apply auto
  done

lemma resolve_so_deps_Some:
  "so_iterator e = Some results \<Longrightarrow>
   resolve_so_deps e obj = Returned (ok, obj') \<longleftrightarrow>
     (\<exists>deps. resolve_loop (readlink_fs e) results [] = Returned (ok, deps) \<and>
        obj' = obj\<lparr>needed := deps\<rparr>)"
  by (cases "resolve_loop (readlink_fs e) results []") (auto simp: resolve_so_deps_def)

lemma mark_dlopen_libs_success:
  assumes "mark_dlopen_libs e nd ed = Returned (True, nd', ed')"
  obtains dl where "resolve_so_deps e ed = Returned (True, ed')"
    and "dlopen_symbol_found e ed = Returned dl"
    and "nd' = nd\<lparr>lm_files := mark_loop ed' dl (lm_files nd) 0\<rparr>"
proof -
  from assms obtain r where r: "resolve_so_deps e ed = Returned r"
    by (cases "resolve_so_deps e ed") (auto simp: mark_dlopen_libs_def)
  obtain ok obj where [simp]: "r = (ok, obj)" by (cases r)
  from assms r have ok: "ok" by (auto simp: mark_dlopen_libs_def split: if_splits)
  from assms r ok obtain dl where dl: "dlopen_symbol_found e obj = Returned dl"
    by (cases "dlopen_symbol_found e obj") (auto simp: mark_dlopen_libs_def)
  from assms r ok dl have eq: "obj = ed'" "nd' = nd\<lparr>lm_files := mark_loop obj dl (lm_files nd) 0\<rparr>"
    by (auto simp: mark_dlopen_libs_def)
  from r ok obtain deps where "obj = ed\<lparr>needed := deps\<rparr>"
    using resolve_so_deps_exe_path [of e ed ok obj] by auto
  with dl have "dlopen_symbol_found e ed = Returned dl" by simp
  with r ok eq that show thesis by simp
qed

subsection \<open>The runs on the concrete inputs\<close>

lemma scan_elf_with_dlopen: "dlopen_symbol_scan elf_with_dlopen = Some True"
  by code_simp

lemma scan_elf_static: "dlopen_symbol_scan elf_static = Some False"
  by code_simp

lemma found_world_dlopen: "dlopen_symbol_found world_dlopen app = Returned True"
  by (simp add: dlopen_symbol_found_def world_dlopen_def scan_elf_with_dlopen)

lemma found_world_static: "dlopen_symbol_found world_static app = Returned False"
  by (simp add: dlopen_symbol_found_def world_static_def scan_elf_static)

lemma resolve_world_dlopen:
  "resolve_so_deps world_dlopen app = Returned (True, app\<lparr>needed := [libfoo_node]\<rparr>)"
  by (simp add: resolve_so_deps_def world_dlopen_def so_path_def readlink_def libfoo_entry_def
      libfoo_node_def)

lemma resolve_world_static:
  "resolve_so_deps world_static app = Returned (True, app\<lparr>needed := [libfoo_node]\<rparr>)"
  by (simp add: resolve_so_deps_def world_static_def so_path_def readlink_def libfoo_entry_def
      libfoo_node_def)

lemma mark_loop_snapshot:
  "mark_loop (app\<lparr>needed := [libfoo_node]\<rparr>) dl [libfoo, libevil] 0 =
     [libfoo, if dl then libevil\<lparr>dlopen := True\<rparr> else libevil\<lparr>injected := True\<rparr>]"
  by (simp add: mark_loop.simps lookup_so_path_def libfoo_node_def libfoo_def libevil_def)

lemma run_world_dlopen:
  "mark_dlopen_libs world_dlopen snapshot app =
     Returned (True, \<lparr>lm_files = [libfoo, libevil\<lparr>dlopen := True\<rparr>]\<rparr>,
               app\<lparr>needed := [libfoo_node]\<rparr>)"
  by (simp add: mark_dlopen_libs_def resolve_world_dlopen dlopen_symbol_found_def
      scan_elf_with_dlopen mark_loop_snapshot snapshot_def)
    (simp add: world_dlopen_def scan_elf_with_dlopen)

lemma run_world_static:
  "mark_dlopen_libs world_static snapshot app =
     Returned (True, \<lparr>lm_files = [libfoo, libevil\<lparr>injected := True\<rparr>]\<rparr>,
               app\<lparr>needed := [libfoo_node]\<rparr>)"
  by (simp add: mark_dlopen_libs_def resolve_world_static dlopen_symbol_found_def
      scan_elf_static mark_loop_snapshot snapshot_def)
    (simp add: world_static_def scan_elf_static)

subsection \<open>What a successful run does to each mapped library\<close>

text \<open>
  Claim C1. After a run that returned true, a mapped library whose path is the path of no
  node of the dependency list has its \<open>dlopen\<close> flag set when the scan of the executable
  found the symbol, and its \<open>injected\<close> flag set when the scan did not find it; the list keeps
  its length and the entry is otherwise as it was.
\<close>

theorem unexplained_library_marked:
  assumes "mark_dlopen_libs e nd ed = Returned (True, nd', ed')"
    and "i < length (lm_files nd)"
    and "lib_path (lm_files nd ! i) \<notin> node_path ` set (needed ed')"
  shows "length (lm_files nd') = length (lm_files nd) \<and>
         (\<exists>found. dlopen_symbol_found e ed = Returned found \<and>
            lm_files nd' ! i =
              (if found then (lm_files nd ! i)\<lparr>dlopen := True\<rparr>
               else (lm_files nd ! i)\<lparr>injected := True\<rparr>))"
proof -
  from assms(1) obtain dl where dl: "dlopen_symbol_found e ed = Returned dl"
    and nd': "nd' = nd\<lparr>lm_files := mark_loop ed' dl (lm_files nd) 0\<rparr>"
    by (rule mark_dlopen_libs_success)
  from assms(3) have "\<not> lookup_so_path ed' (lib_path (lm_files nd ! i))"
    by (simp add: lookup_so_path_iff)
  with assms(2) have "mark_loop ed' dl (lm_files nd) 0 ! i =
      (if dl then (lm_files nd ! i)\<lparr>dlopen := True\<rparr> else (lm_files nd ! i)\<lparr>injected := True\<rparr>)"
    by (simp add: nth_mark_loop)
  with dl nd' show ?thesis by simp
qed

theorem unexplained_library_marked_witness:
  "dlopen ([libfoo, libevil\<lparr>dlopen := True\<rparr>] ! 1) \<and>
   injected ([libfoo, libevil\<lparr>injected := True\<rparr>] ! 1)"
proof -
  have i: "1 < length (lm_files snapshot)"
    by (simp add: snapshot_def)
  have u: "lib_path (lm_files snapshot ! 1) \<notin>
      node_path ` set (needed (app\<lparr>needed := [libfoo_node]\<rparr>))"
    by (simp add: snapshot_def libevil_def libfoo_node_def)
  from unexplained_library_marked [OF run_world_dlopen i u]
  have "[libfoo, libevil\<lparr>dlopen := True\<rparr>] ! 1 = (lm_files snapshot ! 1)\<lparr>dlopen := True\<rparr>"
    by (auto simp: found_world_dlopen)
  moreover
  from unexplained_library_marked [OF run_world_static i u]
  have "[libfoo, libevil\<lparr>injected := True\<rparr>] ! 1 = (lm_files snapshot ! 1)\<lparr>injected := True\<rparr>"
    by (auto simp: found_world_static)
  ultimately show ?thesis by simp
qed

text \<open>
  Claim C2. After a run that returned true, an entry that started with both flags clear
  (the initial state of a mapped library) never has both flags set: it is explained with
  both flags clear, or it is unexplained with exactly one of the two flags set.
\<close>

theorem flags_mutually_exclusive:
  assumes "mark_dlopen_libs e nd ed = Returned (True, nd', ed')"
    and "i < length (lm_files nd)"
    and "\<not> injected (lm_files nd ! i)" and "\<not> dlopen (lm_files nd ! i)"
  shows "\<not> (injected (lm_files nd' ! i) \<and> dlopen (lm_files nd' ! i)) \<and>
         (if lib_path (lm_files nd ! i) \<in> node_path ` set (needed ed')
          then \<not> injected (lm_files nd' ! i) \<and> \<not> dlopen (lm_files nd' ! i)
          else injected (lm_files nd' ! i) \<noteq> dlopen (lm_files nd' ! i))"
proof -
  from assms(1) obtain dl where
    nd': "nd' = nd\<lparr>lm_files := mark_loop ed' dl (lm_files nd) 0\<rparr>"
    by (rule mark_dlopen_libs_success)
  from assms(2-4) show ?thesis
    by (simp add: nd' nth_mark_loop lookup_so_path_iff)
qed

theorem flags_mutually_exclusive_witness:
  "\<not> (injected ([libfoo, libevil\<lparr>dlopen := True\<rparr>] ! 1) \<and>
      dlopen ([libfoo, libevil\<lparr>dlopen := True\<rparr>] ! 1)) \<and>
   \<not> (injected ([libfoo, libevil\<lparr>injected := True\<rparr>] ! 0) \<and>
      dlopen ([libfoo, libevil\<lparr>injected := True\<rparr>] ! 0))"
proof -
  have i: "1 < length (lm_files snapshot)" "0 < length (lm_files snapshot)"
    by (simp_all add: snapshot_def)
  have f: "\<not> injected (lm_files snapshot ! 1)" "\<not> dlopen (lm_files snapshot ! 1)"
    "\<not> injected (lm_files snapshot ! 0)" "\<not> dlopen (lm_files snapshot ! 0)"
    by (simp_all add: snapshot_def libevil_def libfoo_def)
  from flags_mutually_exclusive [OF run_world_dlopen i(1) f(1,2)]
    flags_mutually_exclusive [OF run_world_static i(2) f(3,4)]
  show ?thesis by simp
qed

text \<open>
  Claim C3. After a run that returned true, a mapped library whose path equals the path
  of a node of the dependency list is the record it was before the run; having started
  with both flags clear, it ends with both flags clear.
\<close>

theorem explained_library_unchanged:
  assumes "mark_dlopen_libs e nd ed = Returned (True, nd', ed')"
    and "i < length (lm_files nd)"
    and "lib_path (lm_files nd ! i) \<in> node_path ` set (needed ed')"
  shows "lm_files nd' ! i = lm_files nd ! i \<and>
         (\<not> injected (lm_files nd ! i) \<and> \<not> dlopen (lm_files nd ! i) \<longrightarrow>
          \<not> injected (lm_files nd' ! i) \<and> \<not> dlopen (lm_files nd' ! i))"
proof -
  from assms(1) obtain dl where
    nd': "nd' = nd\<lparr>lm_files := mark_loop ed' dl (lm_files nd) 0\<rparr>"
    by (rule mark_dlopen_libs_success)
  from assms(2,3) show ?thesis
    by (simp add: nd' nth_mark_loop lookup_so_path_iff)
qed

theorem explained_library_unchanged_witness:
  "[libfoo, libevil\<lparr>dlopen := True\<rparr>] ! 0 = libfoo \<and>
   \<not> injected ([libfoo, libevil\<lparr>dlopen := True\<rparr>] ! 0) \<and>
   \<not> dlopen ([libfoo, libevil\<lparr>dlopen := True\<rparr>] ! 0)"
proof -
  have i: "0 < length (lm_files snapshot)"
    by (simp add: snapshot_def)
  have m: "lib_path (lm_files snapshot ! 0) \<in>
      node_path ` set (needed (app\<lparr>needed := [libfoo_node]\<rparr>))"
    by (simp add: snapshot_def libfoo_def libfoo_node_def)
  from explained_library_unchanged [OF run_world_dlopen i m]
  show ?thesis by (simp add: snapshot_def libfoo_def)
qed

section \<open>Properties of the dependency resolver\<close>

lemma resolve_loop_append:
  "resolve_loop fs pre acc = Returned (True, deps) \<Longrightarrow> ELF_ITER_DONE \<notin> set pre \<Longrightarrow>
   resolve_loop fs (pre @ rest) acc = resolve_loop fs rest deps"
proof (induction fs pre acc rule: resolve_loop.induct)
  case (5 fs entry rest' acc)
  then show ?case
    by (cases "so_path fs entry") (auto split: option.splits)
qed auto

lemma resolve_loop_skip_notfound:
  "resolve_loop fs (pre @ ELF_ITER_NOTFOUND # post) acc = resolve_loop fs (pre @ post) acc"
proof (induction fs pre acc rule: resolve_loop.induct)
  case (5 fs entry rest' acc)
  then show ?case
    by (cases "so_path fs entry") (auto split: option.splits)
qed auto

lemma resolve_loop_error_never_succeeds:
  "ELF_ITER_DONE \<notin> set pre \<Longrightarrow>
   resolve_loop fs (pre @ ELF_ITER_ERROR # post) acc \<noteq> Returned (True, deps)"
proof (induction fs pre acc rule: resolve_loop.induct)
  case (5 fs entry rest' acc)
  then show ?case
    by (cases "so_path fs entry") (auto split: option.splits)
qed auto

lemma resolve_loop_records:
  "resolve_loop fs results acc = Returned (True, deps) \<Longrightarrow>
   set acc \<subseteq> set deps \<and>
   (\<forall>entry. ELF_ITER_OK entry \<in> set (takeWhile (\<lambda>r. r \<noteq> ELF_ITER_DONE) results) \<longrightarrow>
      (\<exists>p. so_path fs entry = Returned (Some p) \<and>
           \<lparr>node_path = p, node_basename = entry_basename entry\<rparr> \<in> set deps))"
proof (induction fs results acc rule: resolve_loop.induct)
  case (5 fs entry rest' acc)
  from "5.prems" obtain p where p: "so_path fs entry = Returned (Some p)"
    by (cases "so_path fs entry") (auto split: option.splits)
  with "5.prems" have run: "resolve_loop fs rest'
      (\<lparr>node_path = p, node_basename = entry_basename entry\<rparr> # acc) = Returned (True, deps)"
    by simp
  from "5.IH" [OF run] p show ?case by auto
qed auto

lemma strrchr_None: "strrchr s c = None \<longleftrightarrow> c \<notin> set s"
  by (induction s) (auto split: option.splits)

lemma strrchr_Some:
  "strrchr s c = Some k \<Longrightarrow> k < length s \<and> s ! k = c \<and> c \<notin> set (drop (Suc k) s)"
proof (induction s arbitrary: k)
  case (Cons x xs)
  then show ?case
    by (auto split: option.splits if_splits simp: strrchr_None)
qed simp

lemma strrchr_last_slash:
  "c \<notin> set name \<Longrightarrow> strrchr (dir @ c # name) c = Some (length dir)"
  by (induction dir) (auto simp: strrchr_None [THEN iffD2])

lemma so_path_symlink_no_slash:
  "fs (entry_path entry) = Some target \<Longrightarrow> target \<noteq> [] \<Longrightarrow> CHR ''/'' \<notin> set (entry_path entry) \<Longrightarrow>
   so_path fs entry = Returned None"
  by (cases target) (simp_all add: so_path_def readlink_def strrchr_None [symmetric] PATH_MAX_def)

lemma so_path_symlink:
  "fs (entry_path entry) = Some target \<Longrightarrow> target \<noteq> [] \<Longrightarrow> length target \<le> PATH_MAX \<Longrightarrow>
   strrchr (entry_path entry) CHR ''/'' = Some k \<Longrightarrow> so_path fs entry = Returned (Some p) \<Longrightarrow>
   p = take (Suc k) (entry_path entry) @ target"
  by (cases target) (auto simp: so_path_def readlink_def split: if_splits)

lemma so_path_plain:
  "fs (entry_path entry) = None \<Longrightarrow> so_path fs entry = Returned (Some (entry_path entry))"
  by (simp add: so_path_def readlink_def)

lemma resolve_libfoo:
  assumes "fs ''/usr/lib/libfoo.so'' = None"
  shows "resolve_loop fs [ELF_ITER_OK libfoo_entry] [] = Returned (True, [libfoo_node])"
  using assms by (simp add: so_path_def readlink_def libfoo_entry_def libfoo_node_def)

lemma resolve_world_links:
  "resolve_so_deps world_links app =
     Returned (True, app\<lparr>needed :=
       [libfoo_node, \<lparr>node_path = ''/usr/lib/libbar.so.1.2'', node_basename = ''libbar.so.1''\<rparr>]\<rparr>)"
  by (simp add: resolve_so_deps_def world_links_def so_path_def readlink_def links_def
      libfoo_entry_def libfoo_node_def libbar_entry_def PATH_MAX_def)

subsection \<open>Failure of the resolver\<close>

text \<open>
  Claim C7. When the iterator cannot be initialised, and whenever \<open>resolve_so_deps\<close>
  returns false, \<open>mark_dlopen_libs\<close> returns false and the list of mapped libraries is the
  one it was given; indeed no run that returns false has changed the list.
\<close>

theorem resolve_failure_leaves_libraries:
  "(so_iterator e = None \<longrightarrow> mark_dlopen_libs e nd ed = Returned (False, nd, ed)) \<and>
   (\<forall>ed'. resolve_so_deps e ed = Returned (False, ed') \<longrightarrow>
      mark_dlopen_libs e nd ed = Returned (False, nd, ed')) \<and>
   (\<forall>nd' ed'. mark_dlopen_libs e nd ed = Returned (False, nd', ed') \<longrightarrow> nd' = nd)"
proof (intro conjI allI impI)
  assume "so_iterator e = None"
  then show "mark_dlopen_libs e nd ed = Returned (False, nd, ed)"
    by (simp add: mark_dlopen_libs_def resolve_so_deps_def)
next
  fix ed' assume "resolve_so_deps e ed = Returned (False, ed')"
  then show "mark_dlopen_libs e nd ed = Returned (False, nd, ed')"
    by (simp add: mark_dlopen_libs_def)
next
  fix nd' ed' assume "mark_dlopen_libs e nd ed = Returned (False, nd', ed')"
  then show "nd' = nd"
    by (cases "resolve_so_deps e ed")
      (auto simp: mark_dlopen_libs_def split: if_splits elim!: bind_outcome.elims)
qed

theorem resolve_failure_leaves_libraries_witness:
  "mark_dlopen_libs world_init_fails snapshot app = Returned (False, snapshot, app) \<and>
   mark_dlopen_libs world_step_error snapshot app =
     Returned (False, snapshot, app\<lparr>needed := [libfoo_node]\<rparr>)"
proof -
  have a: "so_iterator world_init_fails = None"
    by (simp add: world_init_fails_def)
  have b: "resolve_so_deps world_step_error app = Returned (False, app\<lparr>needed := [libfoo_node]\<rparr>)"
    by (simp add: resolve_so_deps_def world_step_error_def so_path_def readlink_def
        libfoo_entry_def libfoo_node_def)
  from a b resolve_failure_leaves_libraries [of world_init_fails snapshot app]
    resolve_failure_leaves_libraries [of world_step_error snapshot app]
  show ?thesis by blast
qed

text \<open>
  Claim C8. A not-found result is skipped: the resolver does what it does on the same results
  without that step, so it adds no node for it and goes on with the steps after it. An
  error result that the loop reaches makes the resolver return false, with the nodes
  collected up to then.
\<close>

theorem notfound_skipped_error_aborts:
  assumes "so_iterator e = Some (pre @ r # post)"
  shows "(r = ELF_ITER_NOTFOUND \<longrightarrow>
            resolve_so_deps e obj = resolve_so_deps (e\<lparr>so_iterator := Some (pre @ post)\<rparr>) obj) \<and>
         (r = ELF_ITER_ERROR \<and> ELF_ITER_DONE \<notin> set pre \<longrightarrow>
            (\<forall>obj'. resolve_so_deps e obj \<noteq> Returned (True, obj')) \<and>
            (\<forall>deps. resolve_loop (readlink_fs e) pre [] = Returned (True, deps) \<longrightarrow>
               resolve_so_deps e obj = Returned (False, obj\<lparr>needed := deps\<rparr>)))"
proof (intro conjI impI allI)
  assume "r = ELF_ITER_NOTFOUND"
  with assms show "resolve_so_deps e obj = resolve_so_deps (e\<lparr>so_iterator := Some (pre @ post)\<rparr>) obj"
    by (simp add: resolve_so_deps_def resolve_loop_skip_notfound)
next
  fix obj' assume "r = ELF_ITER_ERROR \<and> ELF_ITER_DONE \<notin> set pre"
  with assms show "resolve_so_deps e obj \<noteq> Returned (True, obj')"
    by (simp add: resolve_so_deps_Some resolve_loop_error_never_succeeds)
next
  fix deps
  assume "r = ELF_ITER_ERROR \<and> ELF_ITER_DONE \<notin> set pre"
    and "resolve_loop (readlink_fs e) pre [] = Returned (True, deps)"
  with assms show "resolve_so_deps e obj = Returned (False, obj\<lparr>needed := deps\<rparr>)"
    by (simp add: resolve_so_deps_Some resolve_loop_append)
qed

theorem notfound_skipped_error_aborts_witness:
  "resolve_so_deps world_links app =
     resolve_so_deps (world_links\<lparr>so_iterator :=
        Some ([ELF_ITER_OK libbar_entry] @ [ELF_ITER_OK libfoo_entry])\<rparr>) app \<and>
   resolve_so_deps world_step_error app = Returned (False, app\<lparr>needed := [libfoo_node]\<rparr>)"
proof -
  have a: "so_iterator world_links =
      Some ([ELF_ITER_OK libbar_entry] @ ELF_ITER_NOTFOUND # [ELF_ITER_OK libfoo_entry])"
    by (simp add: world_links_def)
  have b: "so_iterator world_step_error = Some ([ELF_ITER_OK libfoo_entry] @ ELF_ITER_ERROR # [])"
    by (simp add: world_step_error_def)
  have c: "resolve_loop (readlink_fs world_step_error) [ELF_ITER_OK libfoo_entry] [] =
      Returned (True, [libfoo_node])"
    by (rule resolve_libfoo) (simp add: world_step_error_def)
  from notfound_skipped_error_aborts [OF a, of app] notfound_skipped_error_aborts [OF b, of app] c
  show ?thesis by simp
qed

text \<open>
  Claim C10. When the loop reaches an entry that the iterator found, whose path is a symbolic
  link (\<^verbatim>\<open>readlink\<close> gives a non-empty target) and contains no \<^verbatim>\<open>'/'\<close>, the resolver returns
  false and the whole run returns false without touching the mapped libraries.
\<close>

theorem symlink_without_slash_fails:
  assumes "so_iterator e = Some (pre @ ELF_ITER_OK entry # post)"
    and "ELF_ITER_DONE \<notin> set pre"
    and "resolve_loop (readlink_fs e) pre [] = Returned (True, deps)"
    and "readlink_fs e (entry_path entry) = Some target" and "target \<noteq> []"
    and "CHR ''/'' \<notin> set (entry_path entry)"
  shows "resolve_so_deps e obj = Returned (False, obj\<lparr>needed := deps\<rparr>) \<and>
         mark_dlopen_libs e nd obj = Returned (False, nd, obj\<lparr>needed := deps\<rparr>)"
proof -
  from assms(4-6) have "so_path (readlink_fs e) entry = Returned None"
    by (rule so_path_symlink_no_slash)
  then have "resolve_loop (readlink_fs e) (ELF_ITER_OK entry # post) deps = Returned (False, deps)"
    by simp
  with assms(1-3) have "resolve_so_deps e obj = Returned (False, obj\<lparr>needed := deps\<rparr>)"
    by (simp add: resolve_so_deps_Some resolve_loop_append)
  then show ?thesis by (simp add: mark_dlopen_libs_def)
qed

theorem symlink_without_slash_fails_witness:
  "resolve_so_deps world_no_slash app = Returned (False, app\<lparr>needed := [libfoo_node]\<rparr>) \<and>
   mark_dlopen_libs world_no_slash snapshot app =
     Returned (False, snapshot, app\<lparr>needed := [libfoo_node]\<rparr>)"
proof -
  have a: "so_iterator world_no_slash =
      Some ([ELF_ITER_OK libfoo_entry] @ ELF_ITER_OK libbaz_entry # [ELF_ITER_OK libbar_entry])"
    by (simp add: world_no_slash_def)
  have b: "ELF_ITER_DONE \<notin> set [ELF_ITER_OK libfoo_entry]"
    by simp
  have c: "resolve_loop (readlink_fs world_no_slash) [ELF_ITER_OK libfoo_entry] [] =
      Returned (True, [libfoo_node])"
    by (rule resolve_libfoo) (simp add: world_no_slash_def links_def)
  have d: "readlink_fs world_no_slash (entry_path libbaz_entry) = Some ''libbaz.so.1''"
    by (simp add: world_no_slash_def links_def libbaz_entry_def)
  have e: "''libbaz.so.1'' \<noteq> []"
    by simp
  have f: "CHR ''/'' \<notin> set (entry_path libbaz_entry)"
    by (simp add: libbaz_entry_def)
  from symlink_without_slash_fails [OF a b c d e f] show ?thesis .
qed

subsection \<open>Symbolic links\<close>

text \<open>
  Claim C6, as stated, fails for a symbolic link whose path has no \<^verbatim>\<open>'/'\<close>: the entry
  \<^verbatim>\<open>libbaz.so\<close> is a link to \<^verbatim>\<open>libbaz.so.1\<close>, the iterator found it, and the resolver
  returns false with an empty list, so no node is recorded for it.
\<close>

theorem symlink_always_recorded_counterexample:
  "readlink_fs world_only_link (entry_path libbaz_entry) = Some ''libbaz.so.1'' \<and>
   so_iterator world_only_link = Some [ELF_ITER_OK libbaz_entry] \<and>
   resolve_so_deps world_only_link app = Returned (False, app) \<and>
   needed app = []"
  by (simp add: world_only_link_def links_def libbaz_entry_def resolve_so_deps_def so_path_def
      readlink_def app_def PATH_MAX_def)

text \<open>
  Claim C6, amended. In a resolution that returned true, for every entry the loop reached:
  if its path is a symbolic link with a non-empty target of at most \<^verbatim>\<open>PATH_MAX\<close> bytes and
  has the form \<open>dir/name\<close> with no \<^verbatim>\<open>'/'\<close> in \<open>name\<close>, the list has a node with the path
  \<open>dir/target\<close>; if its path is no symbolic link, the list has a node with the path itself.
\<close>

theorem symlink_entry_canonical_path:
  assumes "resolve_so_deps e obj = Returned (True, obj')"
    and "so_iterator e = Some results"
    and "ELF_ITER_OK entry \<in> set (takeWhile (\<lambda>r. r \<noteq> ELF_ITER_DONE) results)"
  shows "(\<forall>target dir name.
            readlink_fs e (entry_path entry) = Some target \<and> target \<noteq> [] \<and>
            length target \<le> PATH_MAX \<and>
            entry_path entry = dir @ CHR ''/'' # name \<and> CHR ''/'' \<notin> set name \<longrightarrow>
            \<lparr>node_path = dir @ CHR ''/'' # target, node_basename = entry_basename entry\<rparr>
              \<in> set (needed obj')) \<and>
         (readlink_fs e (entry_path entry) = None \<longrightarrow>
            \<lparr>node_path = entry_path entry, node_basename = entry_basename entry\<rparr>
              \<in> set (needed obj'))"
proof -
  from assms(1,2) obtain deps where
    run: "resolve_loop (readlink_fs e) results [] = Returned (True, deps)"
    and obj': "obj' = obj\<lparr>needed := deps\<rparr>"
    by (auto simp: resolve_so_deps_Some)
  from resolve_loop_records [OF run] assms(3) obtain p where
    p: "so_path (readlink_fs e) entry = Returned (Some p)"
    and node: "\<lparr>node_path = p, node_basename = entry_basename entry\<rparr> \<in> set deps"
    by blast
  show ?thesis
  proof (intro conjI allI impI)
    fix target dir name
    assume h: "readlink_fs e (entry_path entry) = Some target \<and> target \<noteq> [] \<and>
      length target \<le> PATH_MAX \<and>
      entry_path entry = dir @ CHR ''/'' # name \<and> CHR ''/'' \<notin> set name"
    then have "strrchr (entry_path entry) CHR ''/'' = Some (length dir)"
      by (simp add: strrchr_last_slash)
    with h p have "p = take (Suc (length dir)) (entry_path entry) @ target"
      by (intro so_path_symlink) auto
    with h have "p = dir @ CHR ''/'' # target" by simp
    with node obj' show "\<lparr>node_path = dir @ CHR ''/'' # target,
        node_basename = entry_basename entry\<rparr> \<in> set (needed obj')"
      by simp
  next
    assume "readlink_fs e (entry_path entry) = None"
    with p have "p = entry_path entry" by (simp add: so_path_plain)
    with node obj' show "\<lparr>node_path = entry_path entry,
        node_basename = entry_basename entry\<rparr> \<in> set (needed obj')"
      by simp
  qed
qed

theorem symlink_entry_canonical_path_witness:
  "\<lparr>node_path = ''/usr/lib'' @ CHR ''/'' # ''libbar.so.1.2'', node_basename = ''libbar.so.1''\<rparr>
     \<in> set [libfoo_node, \<lparr>node_path = ''/usr/lib/libbar.so.1.2'', node_basename = ''libbar.so.1''\<rparr>] \<and>
   \<lparr>node_path = ''/usr/lib/libfoo.so'', node_basename = ''libfoo.so''\<rparr>
     \<in> set [libfoo_node, \<lparr>node_path = ''/usr/lib/libbar.so.1.2'', node_basename = ''libbar.so.1''\<rparr>]"
proof -
  have it: "so_iterator world_links =
      Some [ELF_ITER_OK libbar_entry, ELF_ITER_NOTFOUND, ELF_ITER_OK libfoo_entry]"
    by (simp add: world_links_def)
  have bar: "ELF_ITER_OK libbar_entry \<in> set (takeWhile (\<lambda>r. r \<noteq> ELF_ITER_DONE)
      [ELF_ITER_OK libbar_entry, ELF_ITER_NOTFOUND, ELF_ITER_OK libfoo_entry])"
    and foo: "ELF_ITER_OK libfoo_entry \<in> set (takeWhile (\<lambda>r. r \<noteq> ELF_ITER_DONE)
      [ELF_ITER_OK libbar_entry, ELF_ITER_NOTFOUND, ELF_ITER_OK libfoo_entry])"
    by simp_all
  have link: "readlink_fs world_links (entry_path libbar_entry) = Some ''libbar.so.1.2'' \<and>
      ''libbar.so.1.2'' \<noteq> [] \<and> length ''libbar.so.1.2'' \<le> PATH_MAX \<and>
      entry_path libbar_entry = ''/usr/lib'' @ CHR ''/'' # ''libbar.so.1'' \<and>
      CHR ''/'' \<notin> set ''libbar.so.1''"
    by (simp add: world_links_def links_def libbar_entry_def PATH_MAX_def)
  have plain: "readlink_fs world_links (entry_path libfoo_entry) = None"
    by (simp add: world_links_def links_def libfoo_entry_def)
  from symlink_entry_canonical_path [OF resolve_world_links it bar] link
  have "\<lparr>node_path = ''/usr/lib'' @ CHR ''/'' # ''libbar.so.1.2'',
      node_basename = entry_basename libbar_entry\<rparr>
      \<in> set (needed (app\<lparr>needed := [libfoo_node,
        \<lparr>node_path = ''/usr/lib/libbar.so.1.2'', node_basename = ''libbar.so.1''\<rparr>]\<rparr>))"
    by blast
  moreover
  from symlink_entry_canonical_path [OF resolve_world_links it foo] plain
  have "\<lparr>node_path = entry_path libfoo_entry, node_basename = entry_basename libfoo_entry\<rparr>
      \<in> set (needed (app\<lparr>needed := [libfoo_node,
        \<lparr>node_path = ''/usr/lib/libbar.so.1.2'', node_basename = ''libbar.so.1''\<rparr>]\<rparr>))"
    by blast
  ultimately show ?thesis
    by (simp add: libbar_entry_def libfoo_entry_def)
qed

section \<open>Properties of the string scanner\<close>

lemma strstr_None: "strstr hay needle = None \<longleftrightarrow> \<not> sublist needle hay"
  by (induction hay) (auto simp: sublist_Cons_right)

lemma strstr_sublist: "(\<exists>k. strstr hay needle = Some k) \<longleftrightarrow> sublist needle hay"
  using strstr_None [of hay needle] by auto

lemma nul_runs_Nil [simp]: "nul_runs [] = []"
  by (simp add: nul_runs.simps)

lemma nul_runs_nul [simp]: "nul_runs (CHR 0x00 # rest) = [] # nul_runs rest"
  by (subst nul_runs.simps) simp

lemma no_nul_iff: "CHR 0x00 \<notin> set cur \<longleftrightarrow> (\<forall>x\<in>set cur. x \<noteq> CHR 0x00)"
  by auto

lemma nul_runs_run:
  assumes "CHR 0x00 \<notin> set cur"
  shows "nul_runs (cur @ CHR 0x00 # rest) = cur # nul_runs rest"
proof -
  from assms have "dropWhile (\<lambda>c. c \<noteq> CHR 0x00) (cur @ CHR 0x00 # rest) = CHR 0x00 # rest"
    and "takeWhile (\<lambda>c. c \<noteq> CHR 0x00) (cur @ CHR 0x00 # rest) = cur"
    by (simp_all add: no_nul_iff dropWhile_append2 takeWhile_append2)
  then show ?thesis by (subst nul_runs.simps) simp
qed

lemma longest_run_ge: "n \<le> longest_run n p"
  by (induction p arbitrary: n) (auto intro: Suc_leD)

text \<open>
  As long as no stretch without NUL reaches the size of \<^verbatim>\<open>string\<close>, fewer than
  \<^verbatim>\<open>MAX_STRINGS - 1\<close> runs contain \<^verbatim>\<open>.so\<close> and \<^verbatim>\<open>i\<close> stays an \<^verbatim>\<open>int\<close>, the scanner returns
  the candidate strings and their number.
\<close>

lemma rodata_loop_candidates:
  assumes "CHR 0x00 \<notin> set (str s)"
    and "longest_run (length (str s)) p < STRING_SIZE"
    and "length (stra s) + length (candidate_strings (str s @ p)) < MAX_STRINGS - 1"
    and "MAX_STRINGS \<le> slots s"
    and "0 \<le> i" and "i + int (length p) \<le> INT_MAX"
  shows "rodata_loop ra p i s =
     Returned (int (length (stra s @ candidate_strings (str s @ p))),
               stra s @ candidate_strings (str s @ p))"
  using assms
proof (induction p arbitrary: i s)
  case Nil
  from Nil.prems(1) have h: "dropWhile (\<lambda>c. c \<noteq> CHR 0x00) (str s) = []"
    by (simp add: no_nul_iff)
  have "nul_runs (str s) = []"
    by (subst nul_runs.simps, subst h) simp
  then show ?case by (simp add: candidate_strings_def)
next
  case (Cons c p)
  from Cons.prems(2) longest_run_ge [of "length (str s)" "c # p"]
  have len: "length (str s) < STRING_SIZE" by simp
  from Cons.prems(5,6) have i: "i \<noteq> INT_MAX" "0 \<le> i + 1" "i + 1 + int (length p) \<le> INT_MAX"
    by simp_all
  show ?case
  proof (cases "c = CHR 0x00")
    case False
    let ?s = "s\<lparr>str := str s @ [c]\<rparr>"
    from False len have step: "rodata_step ra c s = Returned (Inr ?s)"
      by (simp add: rodata_step_def)
    from False Cons.prems have "rodata_loop ra p (i + 1) ?s =
      Returned (int (length (stra ?s @ candidate_strings (str ?s @ p))),
                stra ?s @ candidate_strings (str ?s @ p))"
      by (intro Cons.IH i) simp_all
    with step i(1) show ?thesis by simp
  next
    case True
    from Cons.prems(1) True have runs: "nul_runs (str s @ c # p) = str s # nul_runs p"
      by (simp add: nul_runs_run)
    let ?emit = "strstr (str s) ''.so'' \<noteq> None"
    let ?s = "s\<lparr>stra := (if ?emit then stra s @ [str s] else stra s), str := []\<rparr>"
    have cand: "stra s @ candidate_strings (str s @ c # p) = stra ?s @ candidate_strings p"
      by (simp add: candidate_strings_def runs strstr_sublist strstr_None)
    from Cons.prems(3) have bound: "length (stra ?s) + length (candidate_strings p) < MAX_STRINGS - 1"
      by (simp add: candidate_strings_def runs strstr_sublist strstr_None split: if_splits)
    then have "length (stra ?s) \<noteq> MAX_STRINGS - 1" "length (stra s) < slots s"
      using Cons.prems(4) by (auto split: if_splits)
    with True len have step: "rodata_step ra c s = Returned (Inr ?s)"
      by (auto simp: rodata_step_def Let_def)
    from True Cons.prems(2) have "longest_run 0 p < STRING_SIZE" by simp
    with bound Cons.prems(4) have "rodata_loop ra p (i + 1) ?s =
      Returned (int (length (stra ?s @ candidate_strings (str ?s @ p))),
                stra ?s @ candidate_strings (str ?s @ p))"
      by (intro Cons.IH i) simp_all
    with step i(1) cand show ?thesis by simp
  qed
qed

lemma build_rodata_strings_small:
  assumes "longest_run 0 rodata < STRING_SIZE"
    and "length (candidate_strings rodata) < MAX_STRINGS - 1"
    and "int (length rodata) \<le> INT_MAX"
  shows "build_rodata_strings ra rodata =
     Returned (int (length (candidate_strings rodata)), candidate_strings rodata)"
  using assms unfolding build_rodata_strings_def
  by (subst rodata_loop_candidates) simp_all

text \<open>A buffer with a duplicate, a run without \<^verbatim>\<open>.so\<close> and bytes after the last NUL.\<close>

lemma build_rodata_strings_example:
  "build_rodata_strings ra
     (''libc.so.6'' @ CHR 0x00 # ''main'' @ CHR 0x00 # ''libc.so.6'' @ CHR 0x00 # ''ld.so'') =
   Returned (2, [''libc.so.6'', ''libc.so.6''])"
  by (simp add: build_rodata_strings_def rodata_step_def STRING_SIZE_def MAX_STRINGS_def
      INT_MAX_def Let_def prefix_Cons)

subsection \<open>More strings than the block holds\<close>

lemma strstr_so [simp]: "strstr ''.so'' ''.so'' = Some 0"
  by simp

lemma so_run_plain:
  assumes "length xs < n" and "Suc (length xs) \<noteq> MAX_STRINGS - 1"
    and "0 \<le> i" and "i + 4 \<le> INT_MAX"
  shows "rodata_loop ra (so_run @ rest) i \<lparr>str = [], stra = xs, cursize = cs, slots = n\<rparr> =
         rodata_loop ra rest (i + 4) \<lparr>str = [], stra = xs @ [''.so''], cursize = cs, slots = n\<rparr>"
  using assms
  by (simp add: so_run_def rodata_step_def STRING_SIZE_def Let_def) (simp only: add.commute)

lemma so_run_grow:
  assumes "length xs < n" and "Suc (length xs) = MAX_STRINGS - 1"
    and "0 \<le> i" and "i + 4 \<le> INT_MAX"
  shows "rodata_loop ra (so_run @ rest) i
           \<lparr>str = [], stra = xs, cursize = MAX_STRINGS, slots = n\<rparr> =
         (if ra 16384
          then rodata_loop ra rest (i + 4)
                 \<lparr>str = [], stra = xs @ [''.so''], cursize = 2048, slots = 2048\<rparr>
          else Returned (- 1, []))"
  using assms
  by (simp add: so_run_def rodata_step_def STRING_SIZE_def Let_def MAX_STRINGS_def) (simp add: add.commute)

lemma so_run_full:
  assumes "\<not> length xs < n" and "0 \<le> i" and "i + 4 \<le> INT_MAX"
  shows "rodata_loop ra (so_run @ rest) i \<lparr>str = [], stra = xs, cursize = cs, slots = n\<rparr> = Fault"
  using assms
  by (simp add: so_run_def rodata_step_def STRING_SIZE_def Let_def)

lemma so_runs_plain:
  assumes "length xs + k \<le> n"
    and "length xs + k < MAX_STRINGS - 1 \<or> MAX_STRINGS - 1 \<le> length xs"
    and "0 \<le> i" and "i + 4 * int k \<le> INT_MAX"
  shows "rodata_loop ra (concat (replicate k so_run) @ rest) i
           \<lparr>str = [], stra = xs, cursize = cs, slots = n\<rparr> =
         rodata_loop ra rest (i + 4 * int k)
           \<lparr>str = [], stra = xs @ replicate k ''.so'', cursize = cs, slots = n\<rparr>"
  using assms
proof (induction k arbitrary: xs i)
  case 0
  then show ?case by simp
next
  case (Suc k)
  from Suc.prems have "rodata_loop ra (so_run @ concat (replicate k so_run) @ rest) i
      \<lparr>str = [], stra = xs, cursize = cs, slots = n\<rparr> =
    rodata_loop ra (concat (replicate k so_run) @ rest) (i + 4)
      \<lparr>str = [], stra = xs @ [''.so''], cursize = cs, slots = n\<rparr>"
    by (intro so_run_plain) auto
  also from Suc.prems have "\<dots> = rodata_loop ra rest (i + 4 + 4 * int k)
      \<lparr>str = [], stra = (xs @ [''.so'']) @ replicate k ''.so'', cursize = cs, slots = n\<rparr>"
    by (intro Suc.IH) auto
  finally show ?case
    by (simp add: replicate_app_Cons_same algebra_simps)
qed

lemma so_runs_overflow:
  "build_rodata_strings ra (concat (replicate 2049 so_run)) =
     (if ra 16384 then Fault else Returned (- 1, []))"
proof -
  have split: "concat (replicate 2049 so_run) =
      concat (replicate 1022 so_run) @ so_run @ concat (replicate 1025 so_run) @ so_run @ []"
  proof -
    have "replicate 2049 so_run =
      replicate 1022 so_run @ replicate 1 so_run @ replicate 1025 so_run @ replicate 1 so_run"
      by (simp only: replicate_add [symmetric]) simp
    then show ?thesis by simp
  qed
  have "build_rodata_strings ra (concat (replicate 2049 so_run)) =
    rodata_loop ra (so_run @ concat (replicate 1025 so_run) @ so_run @ []) (0 + 4 * int 1022)
      \<lparr>str = [], stra = [] @ replicate 1022 ''.so'', cursize = MAX_STRINGS, slots = MAX_STRINGS\<rparr>"
    unfolding build_rodata_strings_def split
    by (rule so_runs_plain) (simp_all add: MAX_STRINGS_def INT_MAX_def)
  also have "\<dots> = (if ra 16384
      then rodata_loop ra (concat (replicate 1025 so_run) @ so_run @ []) (0 + 4 * int 1022 + 4)
             \<lparr>str = [], stra = ([] @ replicate 1022 ''.so'') @ [''.so''],
              cursize = 2048, slots = 2048\<rparr>
      else Returned (- 1, []))"
    by (rule so_run_grow) (simp_all add: MAX_STRINGS_def INT_MAX_def)
  also have "rodata_loop ra (concat (replicate 1025 so_run) @ so_run @ []) (0 + 4 * int 1022 + 4)
      \<lparr>str = [], stra = ([] @ replicate 1022 ''.so'') @ [''.so''], cursize = 2048, slots = 2048\<rparr> =
    rodata_loop ra (so_run @ []) (0 + 4 * int 1022 + 4 + 4 * int 1025)
      \<lparr>str = [], stra = (([] @ replicate 1022 ''.so'') @ [''.so'']) @ replicate 1025 ''.so'',
       cursize = 2048, slots = 2048\<rparr>"
    by (rule so_runs_plain) (simp_all add: MAX_STRINGS_def INT_MAX_def)
  also have "\<dots> = Fault"
    by (rule so_run_full) (simp_all add: INT_MAX_def)
  finally show ?thesis .
qed

lemma nul_runs_so_runs: "nul_runs (concat (replicate k so_run)) = replicate k ''.so''"
proof (induction k)
  case 0
  then show ?case by simp
next
  case (Suc k)
  have "nul_runs (''.so'' @ CHR 0x00 # concat (replicate k so_run)) =
      ''.so'' # nul_runs (concat (replicate k so_run))"
    by (rule nul_runs_run) simp
  with Suc show ?case by (simp add: so_run_def)
qed

lemma candidate_strings_so_runs:
  "candidate_strings (concat (replicate k so_run)) = replicate k ''.so''"
  by (simp add: candidate_strings_def nul_runs_so_runs)

text \<open>
  Claim C9 asks for the \<open>K\<close> runs that contain \<^verbatim>\<open>.so\<close>, whatever \<open>K\<close> is. On the buffer of
  2049 runs \<^verbatim>\<open>.so\<close> the candidate strings are 2049. The code doubles the block \<^verbatim>\<open>*stra\<close>
  when \<^verbatim>\<open>index\<close> is \<^verbatim>\<open>MAX_STRINGS - 1\<close>, to 2048 pointers, and its comparison with that
  constant never holds again: the 2049th string is stored past the end of the block,
  even if every \<^verbatim>\<open>realloc\<close> succeeds.
\<close>

theorem build_rodata_strings_overflow:
  "candidate_strings (concat (replicate 2049 so_run)) = replicate 2049 ''.so'' \<and>
   build_rodata_strings (\<lambda>n. True) (concat (replicate 2049 so_run)) = Fault"
  by (simp add: candidate_strings_so_runs so_runs_overflow)

section \<open>Properties of the symbol detector\<close>

subsection \<open>The two loops\<close>



lemma last_named_Nil [simp]: "last_named mem shoff shstrtab [] name = None"
  by (simp add: last_named_def)



lemma last_named_upt_empty [simp]:
  "\<not> i < shnum \<Longrightarrow> last_named mem shoff shstrtab [i..<shnum] name = None"
  by simp



lemma read_le_None: "length mem < off + n \<Longrightarrow> read_le mem off n = None"
  by (simp add: read_le_def)






subsection \<open>The detector against the symbol table\<close>
















subsection \<open>Offsets outside the file\<close>












end
